theory Spec2Isabelle
  imports Main "HOL-Library.Sublist"
begin

section \<open>JavaScript objects used as maps\<close>

text \<open>
  A plain JavaScript object whose keys are flag names is an association list in
  insertion order (the order \<^verbatim>\<open>Object.keys\<close> reports for keys that are not
  integer-like).  A per-flag object \<^verbatim>\<open>{ [messageId]: true }\<close> only ever holds the
  value \<^verbatim>\<open>true\<close>, so it is the set of its keys: \<^verbatim>\<open>perFlag[id] = true\<close> is
  \<open>insert\<close>, \<^verbatim>\<open>delete perFlag[id]\<close> removes the element and the truthiness test
  \<^verbatim>\<open>perFlag[id]\<close> is membership.  Message ids are integers; flag names are
  ordinary own-property names.
\<close>

type_synonym per_flag_state = "int set"

type_synonym flags_state = "(string \<times> per_flag_state) list"

text \<open>\<^verbatim>\<open>Object.keys(obj)\<close>\<close>

definition keys :: "(string \<times> 'v) list \<Rightarrow> string list" where
  "keys obj = map fst obj"

text \<open>\<^verbatim>\<open>obj[key]\<close>; \<open>None\<close> is \<^verbatim>\<open>undefined\<close>.\<close>

definition lookup :: "(string \<times> 'v) list \<Rightarrow> string \<Rightarrow> 'v option" where
  "lookup obj key = map_of obj key"

text \<open>
  \<^verbatim>\<open>obj[key] = v\<close> on a copy of \<open>obj\<close>: an existing key keeps its position, a new
  one goes last.
\<close>

fun assign :: "string \<Rightarrow> 'v \<Rightarrow> (string \<times> 'v) list \<Rightarrow> (string \<times> 'v) list" where
  "assign key v [] = [(key, v)]"
| "assign key v ((k, w) # obj) =
     (if k = key then (key, v) # obj else (k, w) # assign key v obj)"

text \<open>\<^verbatim>\<open>{ ...a, ...b }\<close>\<close>

definition spread :: "(string \<times> 'v) list \<Rightarrow> (string \<times> 'v) list \<Rightarrow> (string \<times> 'v) list" where
  "spread a b = fold (\<lambda>(key, v) acc. assign key v acc) b a"

text \<open>\<^verbatim>\<open>state[flag] || {}\<close>\<close>

definition or_empty :: "flags_state \<Rightarrow> string \<Rightarrow> per_flag_state" where
  "or_empty state flag = (case lookup state flag of None \<Rightarrow> {} | Some perFlag \<Rightarrow> perFlag)"

text \<open>\<^verbatim>\<open>state[flag] && state[flag][id]\<close>: the message \<open>i\<close> is recorded under \<open>flag\<close>.\<close>

definition has_flag :: "flags_state \<Rightarrow> string \<Rightarrow> int \<Rightarrow> bool" where
  "has_flag state flag i = (case lookup state flag of None \<Rightarrow> False | Some perFlag \<Rightarrow> i \<in> perFlag)"

text \<open>
  Two objects are content-equal (deep equality, as a test's \<^verbatim>\<open>toEqual\<close> has it)
  when they hold the same value under every key, whatever the order of their keys.
\<close>

definition content_equal :: "flags_state \<Rightarrow> flags_state \<Rightarrow> bool" where
  "content_equal a b = (\<forall>key\<in>set (keys a @ keys b). lookup a key = lookup b key)"

section \<open>Messages and actions\<close>

datatype message_type = Stream_message | Private_message

record message =
  msg_id :: int
  msg_type :: message_type
  msg_recipients :: "nat list"
  msg_flags :: "string list option"
  msg_sender_id :: nat

text \<open>
  The payload of \<^verbatim>\<open>EVENT_UPDATE_MESSAGE_FLAGS\<close>.  \<open>ev_allMessages\<close> is the id list
  \<^verbatim>\<open>Object.keys(action.allMessages).map(Number)\<close>.
\<close>

record update_message_flags =
  ev_all :: bool
  ev_allMessages :: "int list"
  ev_messages :: "int list"
  ev_flag :: string
  ev_op :: string

datatype action =
    REGISTER_COMPLETE
  | LOGOUT
  | LOGIN_SUCCESS
  | ACCOUNT_SWITCH
  | MESSAGE_FETCH_COMPLETE "message list"
  | EVENT_NEW_MESSAGE message
  | EVENT_UPDATE_MESSAGE_FLAGS update_message_flags
  | OTHER_ACTION

text \<open>A failed \<^verbatim>\<open>invariant(cond, text)\<close> throws; the reducer then returns no state.\<close>

datatype error = Invariant_violation string

text \<open>
  Which object a reducer hands back: the very object it received as \<^verbatim>\<open>state\<close>,
  the module constant \<^verbatim>\<open>initialState\<close>, or an object built by the call.
\<close>

datatype 'a returned = Same_state | Initial_state | Fresh 'a

section \<open>The flags reducer (the second module of src/chat/FetchError.js)\<close>

definition initialState :: flags_state where
  "initialState =
     [(''read'', {}), (''starred'', {}), (''collapsed'', {}), (''mentioned'', {}),
      (''wildcard_mentioned'', {}), (''has_alert_word'', {}), (''historical'', {})]"

text \<open>The contents of the returned object, given the object passed in.\<close>

fun contents :: "flags_state \<Rightarrow> flags_state returned \<Rightarrow> flags_state" where
  "contents state Same_state = state"
| "contents state Initial_state = initialState"
| "contents state (Fresh new) = new"

text \<open>
  \<^verbatim>\<open>addFlagsForMessages\<close> (lines 72-98): the early return hands back \<^verbatim>\<open>state\<close>;
  otherwise each flag's copy \<^verbatim>\<open>{ ...(state[flag] || {}) }\<close> gets every message, and
  the result is \<^verbatim>\<open>{ ...state, ...newState }\<close>.
\<close>

definition addFlagsForMessages ::
    "flags_state \<Rightarrow> int list \<Rightarrow> string list \<Rightarrow> flags_state returned" where
  "addFlagsForMessages state messages flags =
     (if messages = [] \<or> flags = [] then Same_state
      else
        let newState =
              fold (\<lambda>flag newState.
                      assign flag (fold insert messages (or_empty state flag)) newState)
                flags []
        in Fresh (spread state newState))"

text \<open>
  \<^verbatim>\<open>removeFlagForMessages\<close> (lines 100-118): always the new object
  \<^verbatim>\<open>{ ...state, [flag]: newStateForFlag }\<close>.
\<close>

definition removeFlagForMessages ::
    "flags_state \<Rightarrow> int list \<Rightarrow> string \<Rightarrow> flags_state returned" where
  "removeFlagForMessages state messages flag =
     (let newStateForFlag = fold (\<lambda>message perFlag. perFlag - {message}) messages (or_empty state flag)
      in Fresh (assign flag newStateForFlag state))"

text \<open>
  Modelled from the spec: \<^verbatim>\<open>deeperMerge\<close> of \<^verbatim>\<open>utils/misc\<close> is imported by the
  reducer but is not among the sources.  It merges two objects of objects one level
  deep: the result has the keys of both, and under each key the entries of both.
\<close>

definition deeperMerge :: "flags_state \<Rightarrow> flags_state \<Rightarrow> flags_state" where
  "deeperMerge obj1 obj2 =
     map (\<lambda>key. (key, or_empty obj1 key \<union> or_empty obj2 key))
       (rev (remdups (rev (keys obj1 @ keys obj2))))"

text \<open>
  One round of the inner \<^verbatim>\<open>forEach\<close> of \<^verbatim>\<open>processFlagsForMessages\<close>; the
  accumulator is \<^verbatim>\<open>(newState, stateChanged)\<close>.
\<close>

definition note_flag ::
    "flags_state \<Rightarrow> int \<Rightarrow> string \<Rightarrow> flags_state \<times> bool \<Rightarrow> flags_state \<times> bool" where
  "note_flag state i flag acc =
     (case acc of (newState, stateChanged) \<Rightarrow>
        if \<not> has_flag state flag i
        then (assign flag (insert i (or_empty newState flag)) newState, True)
        else (newState, stateChanged))"

text \<open>\<^verbatim>\<open>msg.flags || []\<close>\<close>

definition flags_or_nil :: "message \<Rightarrow> string list" where
  "flags_or_nil msg = (case msg_flags msg of None \<Rightarrow> [] | Some flags \<Rightarrow> flags)"

text \<open>
  The two nested \<^verbatim>\<open>forEach\<close> loops of \<^verbatim>\<open>processFlagsForMessages\<close> (lines 124-137),
  and the function itself (lines 120-142).
\<close>

definition scan_messages :: "flags_state \<Rightarrow> message list \<Rightarrow> flags_state \<times> bool" where
  "scan_messages state messages =
     fold (\<lambda>msg acc. fold (note_flag state (msg_id msg)) (flags_or_nil msg) acc)
       messages ([], False)"

definition processFlagsForMessages :: "flags_state \<Rightarrow> message list \<Rightarrow> flags_state returned" where
  "processFlagsForMessages state messages =
     (case scan_messages state messages of (newState, stateChanged) \<Rightarrow>
        if stateChanged then Fresh (deeperMerge state newState) else Same_state)"

text \<open>
  \<^verbatim>\<open>eventUpdateMessageFlags\<close> (lines 144-170).  With \<^verbatim>\<open>all\<close> and "add" the call is
  \<^verbatim>\<open>addFlagsForMessages(initialState, ...)\<close>, whose early return is then the constant
  \<^verbatim>\<open>initialState\<close>; with \<^verbatim>\<open>all\<close> and an operation that is neither "add" nor
  "remove" control falls through to the scoped cases.
\<close>

definition eventUpdateMessageFlags ::
    "flags_state \<Rightarrow> update_message_flags \<Rightarrow> flags_state returned" where
  "eventUpdateMessageFlags state action =
     (if ev_all action \<and> ev_op action = ''add'' then
        (case addFlagsForMessages initialState (ev_allMessages action) [ev_flag action] of
           Same_state \<Rightarrow> Initial_state
         | r \<Rightarrow> r)
      else if ev_all action \<and> ev_op action = ''remove'' then
        Fresh (assign (ev_flag action) {} state)
      else if ev_op action = ''add'' then
        addFlagsForMessages state (ev_messages action) [ev_flag action]
      else if ev_op action = ''remove'' then
        removeFlagForMessages state (ev_messages action) (ev_flag action)
      else Same_state)"

text \<open>The reducer, the module's default export (lines 172-197).\<close>

fun flagsReducer :: "flags_state \<Rightarrow> action \<Rightarrow> error + flags_state returned" where
  "flagsReducer state REGISTER_COMPLETE = Inr Initial_state"
| "flagsReducer state LOGOUT = Inr Initial_state"
| "flagsReducer state LOGIN_SUCCESS = Inr Initial_state"
| "flagsReducer state ACCOUNT_SWITCH = Inr Initial_state"
| "flagsReducer state (MESSAGE_FETCH_COMPLETE messages) =
     Inr (processFlagsForMessages state messages)"
| "flagsReducer state (EVENT_NEW_MESSAGE message) =
     (case msg_flags message of
        None \<Rightarrow> Inl (Invariant_violation ''message in EVENT_NEW_MESSAGE must have flags'')
      | Some flags \<Rightarrow> Inr (addFlagsForMessages state [msg_id message] flags))"
| "flagsReducer state (EVENT_UPDATE_MESSAGE_FLAGS action) =
     Inr (eventUpdateMessageFlags state action)"
| "flagsReducer state OTHER_ACTION = Inr Same_state"

text \<open>
  The reducer's \<^verbatim>\<open>state = initialState\<close> default only serves a call without a
  state; here a state is always passed.

  The two shapes of a flag-change event: scoped to an explicit id list
  (\<^verbatim>\<open>all: false\<close>), and for all messages (\<^verbatim>\<open>all: true\<close>, with the ids of
  \<^verbatim>\<open>allMessages\<close>).
\<close>

definition scoped_change :: "string \<Rightarrow> string \<Rightarrow> int list \<Rightarrow> action" where
  "scoped_change op flag ids =
     EVENT_UPDATE_MESSAGE_FLAGS
       \<lparr>ev_all = False, ev_allMessages = [], ev_messages = ids, ev_flag = flag, ev_op = op\<rparr>"

definition all_change :: "string \<Rightarrow> string \<Rightarrow> int list \<Rightarrow> action" where
  "all_change op flag universe =
     EVENT_UPDATE_MESSAGE_FLAGS
       \<lparr>ev_all = True, ev_allMessages = universe, ev_messages = [], ev_flag = flag, ev_op = op\<rparr>"

text \<open>
  A sequence of events threaded through the reducer; an invariant failure ends it.
\<close>

fun run :: "flags_state \<Rightarrow> action list \<Rightarrow> error + flags_state" where
  "run state [] = Inr state"
| "run state (a # as) =
     (case flagsReducer state a of
        Inl e \<Rightarrow> Inl e
      | Inr r \<Rightarrow> run (contents state r) as)"

section \<open>The flags of one message (the second module of unnamed/part_003)\<close>

text \<open>
  \<^verbatim>\<open>Object.keys(flags).filter(key => flags[key][id])\<close> (lines 578-579); every key
  that is tested is a key of \<open>flags\<close>, so \<^verbatim>\<open>flags[key]\<close> is defined.
\<close>

definition flagsStateToStringList :: "flags_state \<Rightarrow> int \<Rightarrow> string list" where
  "flagsStateToStringList flags i = filter (\<lambda>key. i \<in> or_empty flags key) (keys flags)"

section \<open>The unread-group aggregator\<close>

text \<open>
  The reducer itself (\<^verbatim>\<open>unreadHuddlesReducer\<close>) is not among the sources; only its
  test file is.  The definitions of this section follow the spec's description of it
  (section 4.2), for the events the properties below are about: a new message and a
  change of the "read" flag.
\<close>

text \<open>
  Modelled from the spec: the state of the absent reducer is a list of
  \<^verbatim>\<open>UnreadGroupEntry\<close>, "a pair of (stable sorted-and-joined string key ..., set of
  unread message identifiers for that group)"; the field names are those of the
  reducer's tests, where the ids are a list.
\<close>

record unread_entry =
  user_ids_string :: string
  unread_message_ids :: "int list"

text \<open>
  Modelled from the spec: the decimal rendering of a user id and the joining with
  commas that the key below needs ("sorted numeric ids, comma-joined").
\<close>

fun show_nat :: "nat \<Rightarrow> string" where
  "show_nat n =
     (if n < 10 then [''0123456789'' ! n]
      else show_nat (n div 10) @ [''0123456789'' ! (n mod 10)])"

declare show_nat.simps [simp del]

fun join_comma :: "string list \<Rightarrow> string" where
  "join_comma [] = []"
| "join_comma [s] = s"
| "join_comma (s # t # ss) = s @ '','' @ join_comma (t # ss)"

text \<open>
  Modelled from the spec: the participant key of a conversation, which the absent
  reducer computes, is "sorted numeric ids, comma-joined, always including the local
  user's id".
\<close>

definition participant_key :: "nat \<Rightarrow> nat list \<Rightarrow> string" where
  "participant_key ownUserId user_ids =
     join_comma (map show_nat (sort (remdups (ownUserId # user_ids))))"

text \<open>
  Modelled from the spec: the absent reducer's step for a new message, "if an entry
  for that key exists, append the message id if absent; else append a new entry with
  that single id".
\<close>

fun append_unread :: "string \<Rightarrow> int \<Rightarrow> unread_entry list \<Rightarrow> unread_entry list" where
  "append_unread key i [] = [\<lparr>user_ids_string = key, unread_message_ids = [i]\<rparr>]"
| "append_unread key i (e # es) =
     (if user_ids_string e = key
      then (if i \<in> set (unread_message_ids e) then e
            else e\<lparr>unread_message_ids := unread_message_ids e @ [i]\<rparr>) # es
      else e # append_unread key i es)"

text \<open>
  Modelled from the spec: the absent reducer's handling of a new message, "if the
  message is not a direct/group conversation message, or already carries the "read"
  flag, or the sender is the local user, no-op", and otherwise the step above with
  the key of the message's recipient list; "reference-stable on no-op".
\<close>

definition unreadHuddles_newMessage ::
    "nat \<Rightarrow> unread_entry list \<Rightarrow> message \<Rightarrow> unread_entry list returned" where
  "unreadHuddles_newMessage ownUserId state message =
     (if msg_type message \<noteq> Private_message
         \<or> ''read'' \<in> set (flags_or_nil message)
         \<or> msg_sender_id message = ownUserId
      then Same_state
      else
        let new = append_unread (participant_key ownUserId (msg_recipients message))
                    (msg_id message) state
        in if new = state then Same_state else Fresh new)"

text \<open>
  Modelled from the spec: the absent reducer's step for a message that is unread
  again, "add the id into the matching (or newly created) entry's set; duplicates are
  suppressed".  The spec leaves the position open; the reducer's test (ids 10 and 11
  added to \<open>[1, 2, 3, 4, 100]\<close> give \<open>[1, 2, 3, 4, 10, 11, 100]\<close>) shows the ids in
  ascending order, so a new id is put at its ascending position.
\<close>

fun insert_unread :: "string \<Rightarrow> int \<Rightarrow> unread_entry list \<Rightarrow> unread_entry list" where
  "insert_unread key i [] = [\<lparr>user_ids_string = key, unread_message_ids = [i]\<rparr>]"
| "insert_unread key i (e # es) =
     (if user_ids_string e = key
      then (if i \<in> set (unread_message_ids e) then e
            else e\<lparr>unread_message_ids := insort i (unread_message_ids e)\<rparr>) # es
      else e # insert_unread key i es)"

text \<open>
  Modelled from the spec: the absent reducer's handling of a scoped flag change with
  operation "remove": "other flag-kinds are a guaranteed no-op for this store"; for
  "read", "for each affected message id, resolve its participant key" from the
  "per-message recipient detail supplied alongside the event" (\<open>details\<close>, from
  message id to the other participants) and add the id as above.  An id without
  detail is passed over.
\<close>

definition unreadHuddles_flagRemoved ::
    "nat \<Rightarrow> unread_entry list \<Rightarrow> string \<Rightarrow> int list \<Rightarrow> (int \<times> nat list) list
      \<Rightarrow> unread_entry list returned" where
  "unreadHuddles_flagRemoved ownUserId state flag messages details =
     (if flag \<noteq> ''read'' then Same_state
      else
        let new = fold (\<lambda>i st. case map_of details i of
                                  None \<Rightarrow> st
                                | Some user_ids \<Rightarrow>
                                    insert_unread (participant_key ownUserId user_ids) i st)
                    messages state
        in if new = state then Same_state else Fresh new)"

text \<open>
  Modelled from the spec: the absent reducer's handling of a flag change with
  operation "add": "other flag-kinds are a guaranteed no-op for this store"; for
  "read", "add with explicit id list: delete the given ids from every entry's set"
  and "add with "all" scope: reset the entire list to empty" (the reducer's test
  expects the constant empty list there); "reference-stable on no-op".  An entry
  whose set becomes empty stays, as the spec's data model has it ("is not
  proactively removed"); the reducer's test of a removal that empties an entry
  expects that entry gone.  Where no id is removed the two agree.
\<close>

definition unreadHuddles_flagAdded ::
    "unread_entry list \<Rightarrow> string \<Rightarrow> bool \<Rightarrow> int list \<Rightarrow> unread_entry list returned" where
  "unreadHuddles_flagAdded state flag all_scope messages =
     (if flag \<noteq> ''read'' then Same_state
      else if all_scope then Initial_state
      else
        let new = map (\<lambda>e. e\<lparr>unread_message_ids :=
                                 filter (\<lambda>i. i \<notin> set messages) (unread_message_ids e)\<rparr>)
                    state
        in if new = state then Same_state else Fresh new)"

text \<open>
  Modelled from the spec: the unread ids the state holds for a participant key, those
  of the entry with that key ("at most one entry per distinct participant-set key"),
  and none where there is no such entry.
\<close>

definition unread_of :: "unread_entry list \<Rightarrow> string \<Rightarrow> int list" where
  "unread_of state key =
     (case find (\<lambda>e. user_ids_string e = key) state of
        None \<Rightarrow> []
      | Some e \<Rightarrow> unread_message_ids e)"

text \<open>
  The contents of the list the aggregator hands back, given the list passed in; its
  initial state is the empty list.
\<close>

fun unread_contents :: "unread_entry list \<Rightarrow> unread_entry list returned \<Rightarrow> unread_entry list" where
  "unread_contents state Same_state = state"
| "unread_contents state Initial_state = []"
| "unread_contents state (Fresh new) = new"

section \<open>Basic facts about objects\<close>

lemma lookup_assign:
  "lookup (assign key v obj) k = (if k = key then Some v else lookup obj k)"
  by (induction obj) (auto simp: lookup_def)

lemma assign_same:
  "lookup obj key = Some v \<Longrightarrow> assign key v obj = obj"
  by (induction obj) (auto simp: lookup_def split: if_splits)

lemma assign_assign:
  "assign key v (assign key w obj) = assign key v obj"
  by (induction obj) auto

lemma assign_fixed_iff:
  "assign key v obj = obj \<longleftrightarrow> lookup obj key = Some v"
proof
  assume "assign key v obj = obj"
  then have "lookup obj key = lookup (assign key v obj) key" by simp
  then show "lookup obj key = Some v" by (simp add: lookup_assign)
qed (rule assign_same)

lemma lookup_None_iff:
  "lookup obj k = None \<longleftrightarrow> k \<notin> set (keys obj)"
  by (simp add: lookup_def keys_def map_of_eq_None_iff)

lemma lookup_map_keys:
  "lookup (map (\<lambda>key. (key, g key)) ks) k = (if k \<in> set ks then Some (g k) else None)"
  by (induction ks) (auto simp: lookup_def)

lemma fold_insert_set:
  "fold insert xs S = set xs \<union> S"
  by (induction xs arbitrary: S) auto

lemma fold_delete_set:
  "fold (\<lambda>x S. S - {x}) xs S = S - set xs"
  by (induction xs arbitrary: S) auto

lemma mem_or_empty:
  "i \<in> or_empty obj f \<longleftrightarrow> has_flag obj f i"
  by (simp add: has_flag_def or_empty_def split: option.split)

lemma or_empty_assign:
  "or_empty (assign f S obj) f = S"
  by (simp add: or_empty_def lookup_assign)

lemma or_empty_not_key:
  "k \<notin> set (keys obj) \<Longrightarrow> or_empty obj k = {}"
  by (simp add: or_empty_def lookup_None_iff[symmetric])

lemma lookup_Some_or_empty:
  "lookup s f = Some (or_empty s f - X) \<longleftrightarrow> f \<in> set (keys s) \<and> X \<inter> or_empty s f = {}"
proof (cases "lookup s f")
  case None
  then show ?thesis by (simp add: lookup_None_iff[symmetric])
next
  case (Some a)
  then have "f \<in> set (keys s)" using lookup_None_iff[of s f] by auto
  moreover have "or_empty s f = a" using Some by (simp add: or_empty_def)
  ultimately show ?thesis using Some by auto
qed

lemma content_equal_iff:
  "content_equal a b \<longleftrightarrow> (\<forall>key. lookup a key = lookup b key)"
proof
  assume c: "content_equal a b"
  show "\<forall>key. lookup a key = lookup b key"
  proof
    fix key
    show "lookup a key = lookup b key"
    proof (cases "key \<in> set (keys a @ keys b)")
      case True
      with c show ?thesis by (simp add: content_equal_def)
    next
      case False
      then have "lookup a key = None" "lookup b key = None"
        by (simp_all add: lookup_None_iff)
      then show ?thesis by simp
    qed
  qed
qed (simp add: content_equal_def)

lemma content_equal_assign:
  "content_equal (assign key v obj) obj \<longleftrightarrow> lookup obj key = Some v"
  by (auto simp: content_equal_iff lookup_assign)

lemma has_flag_assign:
  "has_flag (assign flag S obj) f i \<longleftrightarrow> (if f = flag then i \<in> S else has_flag obj f i)"
  by (simp add: has_flag_def lookup_assign)

lemma has_flag_nil:
  "\<not> has_flag [] f i"
  by (simp add: has_flag_def lookup_def)

section \<open>What the helpers of the flags reducer compute\<close>

lemma add_single:
  "ids \<noteq> [] \<Longrightarrow>
     addFlagsForMessages state ids [f] = Fresh (assign f (set ids \<union> or_empty state f) state)"
  by (simp add: addFlagsForMessages_def spread_def fold_insert_set)

lemma remove_eq:
  "removeFlagForMessages state ids f = Fresh (assign f (or_empty state f - set ids) state)"
  by (simp add: removeFlagForMessages_def fold_delete_set)

lemma has_flag_deeperMerge:
  "has_flag (deeperMerge a b) f i \<longleftrightarrow> has_flag a f i \<or> has_flag b f i"
proof -
  have "has_flag (deeperMerge a b) f i \<longleftrightarrow>
          f \<in> set (keys a) \<union> set (keys b) \<and> (i \<in> or_empty a f \<or> i \<in> or_empty b f)"
    by (simp add: deeperMerge_def has_flag_def lookup_map_keys)
  moreover have "i \<in> or_empty a f \<Longrightarrow> f \<in> set (keys a)"
    using or_empty_not_key[of f a] by auto
  moreover have "i \<in> or_empty b f \<Longrightarrow> f \<in> set (keys b)"
    using or_empty_not_key[of f b] by auto
  ultimately show ?thesis
    by (auto simp: mem_or_empty)
qed

text \<open>The scan of a batch: what ends up in \<^verbatim>\<open>newState\<close>, and when \<^verbatim>\<open>stateChanged\<close> is set.\<close>

lemma note_flag_fst:
  "has_flag (fst (note_flag st mid flag acc)) f i \<longleftrightarrow>
     has_flag (fst acc) f i \<or> (i = mid \<and> f = flag \<and> \<not> has_flag st f mid)"
  by (cases acc) (auto simp: note_flag_def has_flag_assign mem_or_empty)

lemma note_flag_snd:
  "snd (note_flag st mid flag acc) \<longleftrightarrow> snd acc \<or> \<not> has_flag st flag mid"
  by (cases acc) (auto simp: note_flag_def)

lemma note_flags_fst:
  "has_flag (fst (fold (note_flag st mid) fs acc)) f i \<longleftrightarrow>
     has_flag (fst acc) f i \<or> (i = mid \<and> f \<in> set fs \<and> \<not> has_flag st f mid)"
  by (induction fs arbitrary: acc) (auto simp: note_flag_fst)

lemma note_flags_snd:
  "snd (fold (note_flag st mid) fs acc) \<longleftrightarrow> snd acc \<or> (\<exists>f\<in>set fs. \<not> has_flag st f mid)"
  by (induction fs arbitrary: acc) (auto simp: note_flag_snd)

lemma scan_fold_fst:
  "has_flag (fst (fold (\<lambda>msg acc. fold (note_flag st (msg_id msg)) (flags_or_nil msg) acc) ms acc)) f i
     \<longleftrightarrow> has_flag (fst acc) f i \<or>
          (\<exists>m\<in>set ms. msg_id m = i \<and> f \<in> set (flags_or_nil m) \<and> \<not> has_flag st f i)"
  by (induction ms arbitrary: acc) (auto simp: note_flags_fst)

lemma scan_fold_snd:
  "snd (fold (\<lambda>msg acc. fold (note_flag st (msg_id msg)) (flags_or_nil msg) acc) ms acc)
     \<longleftrightarrow> snd acc \<or> (\<exists>m\<in>set ms. \<exists>f\<in>set (flags_or_nil m). \<not> has_flag st f (msg_id m))"
  by (induction ms arbitrary: acc) (auto simp: note_flags_snd)

lemma scan_messages_fst:
  "has_flag (fst (scan_messages st ms)) f i \<longleftrightarrow>
     (\<exists>m\<in>set ms. msg_id m = i \<and> f \<in> set (flags_or_nil m) \<and> \<not> has_flag st f i)"
  by (simp add: scan_messages_def scan_fold_fst has_flag_nil)

lemma scan_messages_snd:
  "snd (scan_messages st ms) \<longleftrightarrow>
     (\<exists>m\<in>set ms. \<exists>f\<in>set (flags_or_nil m). \<not> has_flag st f (msg_id m))"
  by (simp add: scan_messages_def scan_fold_snd)

lemma processFlags_has_flag:
  "has_flag (contents state (processFlagsForMessages state messages)) f i \<longleftrightarrow>
     has_flag state f i \<or> (\<exists>m\<in>set messages. msg_id m = i \<and> f \<in> set (flags_or_nil m))"
proof (cases "scan_messages state messages")
  case (Pair newState stateChanged)
  have n: "has_flag newState f i \<longleftrightarrow>
     (\<exists>m\<in>set messages. msg_id m = i \<and> f \<in> set (flags_or_nil m) \<and> \<not> has_flag state f i)"
    using scan_messages_fst[of state messages f i] Pair by simp
  have c: "stateChanged \<longleftrightarrow>
     (\<exists>m\<in>set messages. \<exists>f\<in>set (flags_or_nil m). \<not> has_flag state f (msg_id m))"
    using scan_messages_snd[of state messages] Pair by simp
  show ?thesis
  proof (cases stateChanged)
    case True
    then show ?thesis using Pair n
      by (auto simp: processFlagsForMessages_def has_flag_deeperMerge)
  next
    case False
    then show ?thesis using Pair c
      by (auto simp: processFlagsForMessages_def)
  qed
qed

lemma processFlags_same_iff:
  "processFlagsForMessages state messages = Same_state \<longleftrightarrow>
     (\<forall>m\<in>set messages. \<forall>f\<in>set (flags_or_nil m). has_flag state f (msg_id m))"
  using scan_messages_snd[of state messages]
  by (cases "scan_messages state messages") (auto simp: processFlagsForMessages_def)

lemma add_then_remove:
  "run s [scoped_change ''add'' f ids, scoped_change ''remove'' f ids]
     = Inr (assign f (or_empty s f - set ids) s)"
proof (cases "ids = []")
  case True
  then show ?thesis
    by (simp add: scoped_change_def eventUpdateMessageFlags_def addFlagsForMessages_def remove_eq)
next
  case False
  have "(set ids \<union> or_empty s f) - set ids = or_empty s f - set ids" by auto
  then show ?thesis using False
    by (simp add: scoped_change_def eventUpdateMessageFlags_def add_single remove_eq
          or_empty_assign assign_assign)
qed

section \<open>What a flag-change event records\<close>

lemma has_flag_initialState:
  "\<not> has_flag initialState g i"
  by (simp add: has_flag_def lookup_def initialState_def)

lemma or_empty_initialState:
  "or_empty initialState g = {}"
  using has_flag_initialState[of g] by (auto simp: mem_or_empty)

text \<open>A scoped "add" unions the ids into the flag's set and touches no other flag.\<close>

lemma scoped_add_has_flag:
  "has_flag (contents state (eventUpdateMessageFlags state
       \<lparr>ev_all = False, ev_allMessages = u, ev_messages = ids, ev_flag = flag, ev_op = ''add''\<rparr>)) g i
     \<longleftrightarrow> has_flag state g i \<or> (g = flag \<and> i \<in> set ids)"
proof (cases "ids = []")
  case True
  then show ?thesis by (simp add: eventUpdateMessageFlags_def addFlagsForMessages_def)
next
  case False
  then show ?thesis
    by (auto simp: eventUpdateMessageFlags_def add_single has_flag_assign mem_or_empty)
qed

text \<open>A scoped "remove" deletes the ids from the flag's set and touches no other flag.\<close>

lemma scoped_remove_has_flag:
  "has_flag (contents state (eventUpdateMessageFlags state
       \<lparr>ev_all = False, ev_allMessages = u, ev_messages = ids, ev_flag = flag, ev_op = ''remove''\<rparr>)) g i
     \<longleftrightarrow> has_flag state g i \<and> \<not> (g = flag \<and> i \<in> set ids)"
  by (auto simp: eventUpdateMessageFlags_def remove_eq has_flag_assign mem_or_empty)

text \<open>
  An all-messages "add" records exactly the given ids under the flag, and nothing
  under any other flag, whatever the state was.
\<close>

lemma all_add_has_flag:
  "has_flag (contents state (eventUpdateMessageFlags state
       \<lparr>ev_all = True, ev_allMessages = u, ev_messages = ids, ev_flag = flag, ev_op = ''add''\<rparr>)) g i
     \<longleftrightarrow> g = flag \<and> i \<in> set u"
proof (cases "u = []")
  case True
  then show ?thesis
    by (simp add: eventUpdateMessageFlags_def addFlagsForMessages_def has_flag_initialState)
next
  case False
  then show ?thesis
    by (auto simp: eventUpdateMessageFlags_def add_single has_flag_assign or_empty_initialState
          has_flag_initialState)
qed

text \<open>An all-messages "remove" empties the flag's set and touches no other flag.\<close>

lemma all_remove_has_flag:
  "has_flag (contents state (eventUpdateMessageFlags state
       \<lparr>ev_all = True, ev_allMessages = u, ev_messages = ids, ev_flag = flag, ev_op = ''remove''\<rparr>)) g i
     \<longleftrightarrow> has_flag state g i \<and> g \<noteq> flag"
  by (auto simp: eventUpdateMessageFlags_def has_flag_assign)

section \<open>What the steps of the unread-group aggregator compute\<close>

lemma unread_of_Nil:
  "unread_of [] k = []"
  by (simp add: unread_of_def)

lemma unread_of_Cons:
  "unread_of (e # es) k =
     (if user_ids_string e = k then unread_message_ids e else unread_of es k)"
  by (simp add: unread_of_def)

lemma unread_of_insert:
  "unread_of (insert_unread key i st) k =
     (if k = key then (if i \<in> set (unread_of st key) then unread_of st key
                       else insort i (unread_of st key))
      else unread_of st k)"
  by (induction st) (auto simp: unread_of_Nil unread_of_Cons)

lemma set_unread_of_insert:
  "set (unread_of (insert_unread key i st) k) =
     (if k = key then insert i (set (unread_of st k)) else set (unread_of st k))"
  by (simp add: unread_of_insert set_insort_key insert_absorb)

lemma keys_insert:
  "map user_ids_string (insert_unread key i st) =
     (if key \<in> set (map user_ids_string st) then map user_ids_string st
      else map user_ids_string st @ [key])"
  by (induction st) auto

lemma insert_absent:
  "key \<notin> set (map user_ids_string st) \<Longrightarrow>
     insert_unread key i st = st @ [\<lparr>user_ids_string = key, unread_message_ids = [i]\<rparr>]"
  by (induction st) auto

lemma insert_present:
  "i \<in> set (unread_of st key) \<Longrightarrow> insert_unread key i st = st"
  by (induction st) (auto simp: unread_of_Nil unread_of_Cons)

lemma unread_of_append:
  "unread_of (append_unread key i st) k =
     (if k = key then (if i \<in> set (unread_of st key) then unread_of st key
                       else unread_of st key @ [i])
      else unread_of st k)"
  by (induction st) (auto simp: unread_of_Nil unread_of_Cons)

lemma append_present:
  "i \<in> set (unread_of st key) \<Longrightarrow> append_unread key i st = st"
  by (induction st) (auto simp: unread_of_Nil unread_of_Cons)

lemma append_fixed_iff:
  "append_unread key i st = st \<longleftrightarrow> i \<in> set (unread_of st key)"
proof
  assume a: "append_unread key i st = st"
  show "i \<in> set (unread_of st key)"
  proof (rule ccontr)
    assume n: "i \<notin> set (unread_of st key)"
    have "unread_of (append_unread key i st) key = unread_of st key @ [i]"
      using n by (simp add: unread_of_append)
    with a show False by simp
  qed
qed (rule append_present)

text \<open>The loop over the ids of a removal of "read".\<close>

lemma fold_mark_set:
  "set (unread_of (fold (\<lambda>i st. case map_of details i of None \<Rightarrow> st
       | Some user_ids \<Rightarrow> insert_unread (participant_key own user_ids) i st) ms st) k) =
     set (unread_of st k) \<union>
     {i \<in> set ms. \<exists>u. map_of details i = Some u \<and> participant_key own u = k}"
proof (induction ms arbitrary: st)
  case Nil
  then show ?case by simp
next
  case (Cons m ms)
  let ?new = "\<lambda>xs. {i \<in> set xs. \<exists>u. map_of details i = Some u \<and> participant_key own u = k}"
  show ?case
  proof (cases "map_of details m")
    case None
    then have "?new (m # ms) = ?new ms" by auto
    then show ?thesis using Cons[of st] None by simp
  next
    case (Some u)
    have n: "?new (m # ms) = (if participant_key own u = k then insert m (?new ms) else ?new ms)"
      using Some by auto
    have "set (unread_of (fold (\<lambda>i st. case map_of details i of None \<Rightarrow> st
       | Some user_ids \<Rightarrow> insert_unread (participant_key own user_ids) i st) (m # ms) st) k)
       = set (unread_of (insert_unread (participant_key own u) m st) k) \<union> ?new ms"
      using Cons[of "insert_unread (participant_key own u) m st"] Some by simp
    also have "\<dots> = set (unread_of st k) \<union> ?new (m # ms)"
      unfolding n set_unread_of_insert by auto
    finally show ?thesis .
  qed
qed

lemma fold_mark_distinct:
  "(\<And>k. distinct (unread_of st k)) \<Longrightarrow>
   distinct (unread_of (fold (\<lambda>i st. case map_of details i of None \<Rightarrow> st
       | Some user_ids \<Rightarrow> insert_unread (participant_key own user_ids) i st) ms st) k)"
proof (induction ms arbitrary: st)
  case Nil
  then show ?case by simp
next
  case (Cons m ms)
  show ?case
  proof (cases "map_of details m")
    case None
    then show ?thesis using Cons by simp
  next
    case (Some u)
    have "\<And>k. distinct (unread_of (insert_unread (participant_key own u) m st) k)"
      using Cons.prems by (simp add: unread_of_insert distinct_insort)
    then show ?thesis using Cons.IH Some by simp
  qed
qed

lemma fold_mark_prefix:
  "prefix (map user_ids_string st)
     (map user_ids_string (fold (\<lambda>i st. case map_of details i of None \<Rightarrow> st
       | Some user_ids \<Rightarrow> insert_unread (participant_key own user_ids) i st) ms st))"
proof (induction ms arbitrary: st)
  case Nil
  then show ?case by simp
next
  case (Cons m ms)
  show ?case
  proof (cases "map_of details m")
    case None
    then show ?thesis using Cons by simp
  next
    case (Some u)
    have "prefix (map user_ids_string st)
            (map user_ids_string (insert_unread (participant_key own u) m st))"
      by (simp add: keys_insert)
    then show ?thesis
      using Cons[of "insert_unread (participant_key own u) m st"] Some
      by (auto intro: prefix_order.trans)
  qed
qed

lemma participant_key_set:
  "participant_key own u = join_comma (map show_nat (sorted_list_of_set (insert own (set u))))"
  by (simp add: participant_key_def sorted_list_of_set_sort_remdups[symmetric] del: remdups.simps)

text \<open>What a removal of "read" hands back, in terms of the loop.\<close>

lemma flagRemoved_contents:
  "unread_contents state (unreadHuddles_flagRemoved own state ''read'' ms details) =
     fold (\<lambda>i st. case map_of details i of None \<Rightarrow> st
       | Some user_ids \<Rightarrow> insert_unread (participant_key own user_ids) i st) ms state"
  by (simp add: unreadHuddles_flagRemoved_def Let_def)

text \<open>Each step hands back the list it was given whenever it changes nothing.\<close>

lemma newMessage_same_if_unchanged:
  "unread_contents state (unreadHuddles_newMessage own state message) = state \<Longrightarrow>
     unreadHuddles_newMessage own state message = Same_state"
  by (simp add: unreadHuddles_newMessage_def Let_def split: if_splits)

lemma flagRemoved_same_if_unchanged:
  "unread_contents state (unreadHuddles_flagRemoved own state flag ms details) = state \<Longrightarrow>
     unreadHuddles_flagRemoved own state flag ms details = Same_state"
  by (simp add: unreadHuddles_flagRemoved_def Let_def split: if_splits)

lemma flagAdded_same_if_unchanged:
  "unread_contents state (unreadHuddles_flagAdded state flag False ms) = state \<Longrightarrow>
     unreadHuddles_flagAdded state flag False ms = Same_state"
  by (simp add: unreadHuddles_flagAdded_def Let_def split: if_splits)

lemma flagAdded_untouched:
  "\<forall>e\<in>set state. set ms \<inter> set (unread_message_ids e) = {} \<Longrightarrow>
     unreadHuddles_flagAdded state flag False ms = Same_state"
proof -
  assume a: "\<forall>e\<in>set state. set ms \<inter> set (unread_message_ids e) = {}"
  have "map (\<lambda>e. e\<lparr>unread_message_ids :=
                     filter (\<lambda>i. i \<notin> set ms) (unread_message_ids e)\<rparr>) state = state"
  proof (rule map_idI)
    fix e assume "e \<in> set state"
    with a have "filter (\<lambda>i. i \<notin> set ms) (unread_message_ids e) = unread_message_ids e"
      by (auto simp: filter_id_conv)
    then show "e\<lparr>unread_message_ids :=
                  filter (\<lambda>i. i \<notin> set ms) (unread_message_ids e)\<rparr> = e"
      by simp
  qed
  then show ?thesis by (simp add: unreadHuddles_flagAdded_def)
qed

lemma newMessage_present:
  "msg_id message \<in> set (unread_of state (participant_key own (msg_recipients message))) \<Longrightarrow>
     unreadHuddles_newMessage own state message = Same_state"
  by (simp add: unreadHuddles_newMessage_def append_present)

section \<open>The flags store: all-messages changes and unknown flags\<close>

text \<open>
  C1.  The claim: an all-messages change with operation "add" sets the flag's set to
  the given ids and leaves the set of every other flag as it was.  The code passes
  \<^verbatim>\<open>initialState\<close>, not \<^verbatim>\<open>state\<close>, to \<^verbatim>\<open>addFlagsForMessages\<close>: with message 7
  starred, marking all of the messages 7 and 8 as read gives the read set \<open>{7, 8}\<close>
  and an empty starred set.
\<close>

theorem all_add_resets_other_flags:
  "flagsReducer
     [(''read'', {}), (''starred'', {7}), (''collapsed'', {}), (''mentioned'', {}),
      (''wildcard_mentioned'', {}), (''has_alert_word'', {}), (''historical'', {})]
     (all_change ''add'' ''read'' [7, 8])
   = Inr (Fresh
     [(''read'', {7, 8}), (''starred'', {}), (''collapsed'', {}), (''mentioned'', {}),
      (''wildcard_mentioned'', {}), (''has_alert_word'', {}), (''historical'', {})])"
  by (simp add: all_change_def eventUpdateMessageFlags_def addFlagsForMessages_def
        spread_def or_empty_def lookup_def initialState_def insert_commute)

text \<open>
  C3.  The claim: an event whose flag is none of the seven known ones leaves the
  state unchanged and creates no entry for it.  The code creates an entry for the
  unknown flag \<open>foo\<close> on every path: a scoped add, a scoped remove, an all-messages
  add, an all-messages remove, a new message and a fetched batch.
\<close>

theorem unknown_flag_gets_an_entry:
  "flagsReducer initialState (scoped_change ''add'' ''foo'' [1])
     = Inr (Fresh (initialState @ [(''foo'', {1})]))
   \<and> flagsReducer initialState (scoped_change ''remove'' ''foo'' [1])
     = Inr (Fresh (initialState @ [(''foo'', {})]))
   \<and> flagsReducer initialState (all_change ''add'' ''foo'' [1])
     = Inr (Fresh (initialState @ [(''foo'', {1})]))
   \<and> flagsReducer initialState (all_change ''remove'' ''foo'' [])
     = Inr (Fresh (initialState @ [(''foo'', {})]))
   \<and> flagsReducer initialState
       (EVENT_NEW_MESSAGE \<lparr>msg_id = 1, msg_type = Stream_message, msg_recipients = [],
          msg_flags = Some [''foo''], msg_sender_id = 9\<rparr>)
     = Inr (Fresh (initialState @ [(''foo'', {1})]))
   \<and> flagsReducer initialState
       (MESSAGE_FETCH_COMPLETE [\<lparr>msg_id = 1, msg_type = Stream_message, msg_recipients = [],
          msg_flags = Some [''foo''], msg_sender_id = 9\<rparr>])
     = Inr (Fresh (initialState @ [(''foo'', {1})]))"
  by (simp add: scoped_change_def all_change_def eventUpdateMessageFlags_def
        addFlagsForMessages_def removeFlagForMessages_def spread_def or_empty_def lookup_def
        initialState_def processFlagsForMessages_def scan_messages_def note_flag_def
        flags_or_nil_def has_flag_def deeperMerge_def keys_def)

section \<open>The flags store: a fetched batch\<close>

text \<open>
  C2, as the code has it.  After a fetched batch a message id is recorded under a
  flag if and only if it was recorded there before, or some message of the batch has
  that id and carries that flag: the batch is merged into the state, and nothing the
  state recorded is dropped.
\<close>

theorem fetch_complete_merges_batch:
  "\<exists>r. flagsReducer state (MESSAGE_FETCH_COMPLETE messages) = Inr r \<and>
        (\<forall>flag i. has_flag (contents state r) flag i \<longleftrightarrow>
           has_flag state flag i \<or>
           (\<exists>m\<in>set messages. msg_id m = i \<and> flag \<in> set (flags_or_nil m)))"
  by (simp add: processFlags_has_flag)

text \<open>
  C2 as stated fails: message 1 is recorded as read, the batch holds message 2 only,
  and after the batch message 1 is still recorded as read.
\<close>

theorem fetch_complete_keeps_earlier_flags:
  "flagsReducer [(''read'', {1}), (''starred'', {2})]
     (MESSAGE_FETCH_COMPLETE [\<lparr>msg_id = 2, msg_type = Stream_message, msg_recipients = [],
        msg_flags = Some [''starred''], msg_sender_id = 9\<rparr>])
   = Inr Same_state
   \<and> has_flag (contents [(''read'', {1}), (''starred'', {2})] Same_state) ''read'' 1
   \<and> map msg_id [\<lparr>msg_id = 2, msg_type = Stream_message, msg_recipients = [],
        msg_flags = Some [''starred''], msg_sender_id = 9\<rparr>] = [2]"
  by (simp add: processFlagsForMessages_def scan_messages_def note_flag_def flags_or_nil_def
        has_flag_def lookup_def)

section \<open>Which events hand back the state itself\<close>

text \<open>
  C4, as the code has it.  The flags reducer hands back the very state it was given
  for a scoped "add" with an empty id list, for a new message with an empty flag
  list, for a fetched batch exactly when every flag its messages carry is already
  recorded, and for an action it does not handle.  The unread-group aggregator hands
  back the very list it was given whenever a new message, a removal of a flag or a
  scoped addition of a flag leaves the contents of the list as they were: so for a
  new message whose id its entry already holds, for a change of a flag other than
  "read", for a removal with an empty id list, and for a scoped addition of "read"
  for ids that no entry holds.
\<close>

theorem noop_events_return_same_state:
  "flagsReducer state (scoped_change ''add'' flag []) = Inr Same_state
   \<and> (msg_flags message = Some [] \<longrightarrow>
        flagsReducer state (EVENT_NEW_MESSAGE message) = Inr Same_state)
   \<and> (flagsReducer state (MESSAGE_FETCH_COMPLETE messages) = Inr Same_state \<longleftrightarrow>
        (\<forall>m\<in>set messages. \<forall>f\<in>set (flags_or_nil m). has_flag state f (msg_id m)))
   \<and> flagsReducer state OTHER_ACTION = Inr Same_state
   \<and> (unread_contents unreads (unreadHuddles_newMessage ownUserId unreads arrived) = unreads \<longrightarrow>
        unreadHuddles_newMessage ownUserId unreads arrived = Same_state)
   \<and> (unread_contents unreads (unreadHuddles_flagRemoved ownUserId unreads flag ids details) = unreads \<longrightarrow>
        unreadHuddles_flagRemoved ownUserId unreads flag ids details = Same_state)
   \<and> (unread_contents unreads (unreadHuddles_flagAdded unreads flag False ids) = unreads \<longrightarrow>
        unreadHuddles_flagAdded unreads flag False ids = Same_state)
   \<and> (msg_id arrived \<in> set (unread_of unreads (participant_key ownUserId (msg_recipients arrived))) \<longrightarrow>
        unreadHuddles_newMessage ownUserId unreads arrived = Same_state)
   \<and> (flag \<noteq> ''read'' \<longrightarrow>
        unreadHuddles_flagRemoved ownUserId unreads flag ids details = Same_state
        \<and> unreadHuddles_flagAdded unreads flag all_scope ids = Same_state)
   \<and> unreadHuddles_flagRemoved ownUserId unreads flag [] details = Same_state
   \<and> ((\<forall>e\<in>set unreads. set ids \<inter> set (unread_message_ids e) = {}) \<longrightarrow>
        unreadHuddles_flagAdded unreads flag False ids = Same_state)"
proof -
  have f: "flagsReducer state (scoped_change ''add'' flag []) = Inr Same_state
   \<and> (msg_flags message = Some [] \<longrightarrow>
        flagsReducer state (EVENT_NEW_MESSAGE message) = Inr Same_state)
   \<and> (flagsReducer state (MESSAGE_FETCH_COMPLETE messages) = Inr Same_state \<longleftrightarrow>
        (\<forall>m\<in>set messages. \<forall>f\<in>set (flags_or_nil m). has_flag state f (msg_id m)))
   \<and> flagsReducer state OTHER_ACTION = Inr Same_state"
    by (simp add: scoped_change_def eventUpdateMessageFlags_def addFlagsForMessages_def
          processFlags_same_iff)
  have u1: "unread_contents unreads (unreadHuddles_newMessage ownUserId unreads arrived) = unreads \<longrightarrow>
        unreadHuddles_newMessage ownUserId unreads arrived = Same_state"
    using newMessage_same_if_unchanged by blast
  have u2: "unread_contents unreads (unreadHuddles_flagRemoved ownUserId unreads flag ids details) = unreads \<longrightarrow>
        unreadHuddles_flagRemoved ownUserId unreads flag ids details = Same_state"
    using flagRemoved_same_if_unchanged by blast
  have u3: "unread_contents unreads (unreadHuddles_flagAdded unreads flag False ids) = unreads \<longrightarrow>
        unreadHuddles_flagAdded unreads flag False ids = Same_state"
    using flagAdded_same_if_unchanged by blast
  have u4: "msg_id arrived \<in> set (unread_of unreads (participant_key ownUserId (msg_recipients arrived))) \<longrightarrow>
        unreadHuddles_newMessage ownUserId unreads arrived = Same_state"
    using newMessage_present by blast
  have u5: "flag \<noteq> ''read'' \<longrightarrow>
        unreadHuddles_flagRemoved ownUserId unreads flag ids details = Same_state
        \<and> unreadHuddles_flagAdded unreads flag all_scope ids = Same_state"
    by (simp add: unreadHuddles_flagRemoved_def unreadHuddles_flagAdded_def)
  have u6: "unreadHuddles_flagRemoved ownUserId unreads flag [] details = Same_state"
    by (simp add: unreadHuddles_flagRemoved_def)
  have u7: "(\<forall>e\<in>set unreads. set ids \<inter> set (unread_message_ids e) = {}) \<longrightarrow>
        unreadHuddles_flagAdded unreads flag False ids = Same_state"
    using flagAdded_untouched by blast
  show ?thesis
    using f by (intro conjI u1 u2 u3 u4 u5 u6 u7) simp_all
qed

text \<open>
  The flags cases at a state that records message 1 as read, with a batch that holds
  message 1 and its "read" flag; the unread-group cases at one group with the unread
  messages 1, 2 and 3: message 2 arrives again, "read" is removed from message 2,
  "read" is added for the messages 6 and 7, and "starred" is removed and added.
\<close>

theorem noop_events_return_same_state_witness:
  "flagsReducer [(''read'', {1}), (''starred'', {})] (scoped_change ''add'' ''starred'' [])
     = Inr Same_state
   \<and> flagsReducer [(''read'', {1}), (''starred'', {})]
       (EVENT_NEW_MESSAGE \<lparr>msg_id = 3, msg_type = Stream_message, msg_recipients = [],
          msg_flags = Some [], msg_sender_id = 9\<rparr>)
     = Inr Same_state
   \<and> flagsReducer [(''read'', {1}), (''starred'', {})]
       (MESSAGE_FETCH_COMPLETE [\<lparr>msg_id = 1, msg_type = Stream_message, msg_recipients = [],
          msg_flags = Some [''read''], msg_sender_id = 9\<rparr>])
     = Inr Same_state
   \<and> flagsReducer [(''read'', {1}), (''starred'', {})] OTHER_ACTION = Inr Same_state
   \<and> unreadHuddles_newMessage 1
       [\<lparr>user_ids_string = ''1,2,3'', unread_message_ids = [1, 2, 3]\<rparr>]
       \<lparr>msg_id = 2, msg_type = Private_message, msg_recipients = [1, 2, 3],
          msg_flags = Some [], msg_sender_id = 2\<rparr>
     = Same_state
   \<and> unreadHuddles_flagRemoved 1
       [\<lparr>user_ids_string = ''1,2,3'', unread_message_ids = [1, 2, 3]\<rparr>]
       ''read'' [2] [(2, [2, 3])]
     = Same_state
   \<and> unreadHuddles_flagAdded
       [\<lparr>user_ids_string = ''1,2,3'', unread_message_ids = [1, 2, 3]\<rparr>]
       ''read'' False [6, 7]
     = Same_state
   \<and> unreadHuddles_flagRemoved 1
       [\<lparr>user_ids_string = ''1,2,3'', unread_message_ids = [1, 2, 3]\<rparr>]
       ''starred'' [9] [(9, [2, 3])]
     = Same_state
   \<and> unreadHuddles_flagAdded
       [\<lparr>user_ids_string = ''1,2,3'', unread_message_ids = [1, 2, 3]\<rparr>]
       ''starred'' False [1, 2, 3]
     = Same_state"
proof -
  let ?S = "[(''read'', {1::int}), (''starred'', {})]"
  let ?M = "\<lparr>msg_id = 3, msg_type = Stream_message, msg_recipients = [],
              msg_flags = Some [], msg_sender_id = 9\<rparr>"
  let ?B = "[\<lparr>msg_id = 1, msg_type = Stream_message, msg_recipients = [],
               msg_flags = Some [''read''], msg_sender_id = 9\<rparr>]"
  let ?U = "[\<lparr>user_ids_string = ''1,2,3'', unread_message_ids = [1, 2, 3::int]\<rparr>]"
  let ?A = "\<lparr>msg_id = 2, msg_type = Private_message, msg_recipients = [1, 2, 3],
              msg_flags = Some [], msg_sender_id = 2\<rparr>"
  note t = noop_events_return_same_state
  have h1: "msg_flags ?M = Some []" by simp
  have h2: "\<forall>m\<in>set ?B. \<forall>f\<in>set (flags_or_nil m). has_flag ?S f (msg_id m)"
    by (simp add: flags_or_nil_def has_flag_def lookup_def)
  from t[where state = ?S and flag = "''starred''" and message = ?M and messages = ?B] h1 h2
  have c1: "flagsReducer ?S (scoped_change ''add'' ''starred'' []) = Inr Same_state
      \<and> flagsReducer ?S (EVENT_NEW_MESSAGE ?M) = Inr Same_state
      \<and> flagsReducer ?S (MESSAGE_FETCH_COMPLETE ?B) = Inr Same_state
      \<and> flagsReducer ?S OTHER_ACTION = Inr Same_state"
    by blast
  have h3: "msg_id ?A \<in> set (unread_of ?U (participant_key 1 (msg_recipients ?A)))"
    by (simp add: unread_of_def participant_key_def show_nat.simps)
  from t[where unreads = ?U and ownUserId = 1 and arrived = ?A] h3
  have c2: "unreadHuddles_newMessage 1 ?U ?A = Same_state" by blast
  have h4: "unread_contents ?U (unreadHuddles_flagRemoved 1 ?U ''read'' [2] [(2, [2, 3])]) = ?U"
    by (simp add: unreadHuddles_flagRemoved_def participant_key_def show_nat.simps)
  from t[where unreads = ?U and ownUserId = 1 and flag = "''read''" and ids = "[2]"
           and details = "[(2, [2, 3])]"] h4
  have c3: "unreadHuddles_flagRemoved 1 ?U ''read'' [2] [(2, [2, 3])] = Same_state" by blast
  have h5: "\<forall>e\<in>set ?U. set [6, 7] \<inter> set (unread_message_ids e) = {}" by simp
  from t[where unreads = ?U and flag = "''read''" and ids = "[6, 7]"] h5
  have c4: "unreadHuddles_flagAdded ?U ''read'' False [6, 7] = Same_state" by blast
  have h6: "''starred'' \<noteq> ''read''" by simp
  from t[where unreads = ?U and ownUserId = 1 and flag = "''starred''" and ids = "[9]"
           and details = "[(9, [2, 3])]"] h6
  have c5: "unreadHuddles_flagRemoved 1 ?U ''starred'' [9] [(9, [2, 3])] = Same_state" by blast
  from t[where unreads = ?U and flag = "''starred''" and ids = "[1, 2, 3]"
           and all_scope = False] h6
  have c6: "unreadHuddles_flagAdded ?U ''starred'' False [1, 2, 3] = Same_state" by blast
  from c1 c2 c3 c4 c5 c6 show ?thesis by blast
qed

text \<open>
  C4 as stated fails, at a state the initial one reaches by marking message 1 as
  read: adding a flag a message already has, and removing a flag from no message at
  all, change nothing, and each returns a rebuilt object with the contents of the
  state, not the state itself.
\<close>

theorem flags_noop_rebuilt_copy:
  "run initialState [scoped_change ''add'' ''read'' [1]]
     = Inr [(''read'', {1}), (''starred'', {}), (''collapsed'', {}), (''mentioned'', {}),
            (''wildcard_mentioned'', {}), (''has_alert_word'', {}), (''historical'', {})]
   \<and> flagsReducer
       [(''read'', {1}), (''starred'', {}), (''collapsed'', {}), (''mentioned'', {}),
        (''wildcard_mentioned'', {}), (''has_alert_word'', {}), (''historical'', {})]
       (scoped_change ''add'' ''read'' [1])
     = Inr (Fresh
       [(''read'', {1}), (''starred'', {}), (''collapsed'', {}), (''mentioned'', {}),
        (''wildcard_mentioned'', {}), (''has_alert_word'', {}), (''historical'', {})])
   \<and> flagsReducer
       [(''read'', {1}), (''starred'', {}), (''collapsed'', {}), (''mentioned'', {}),
        (''wildcard_mentioned'', {}), (''has_alert_word'', {}), (''historical'', {})]
       (scoped_change ''remove'' ''read'' [])
     = Inr (Fresh
       [(''read'', {1}), (''starred'', {}), (''collapsed'', {}), (''mentioned'', {}),
        (''wildcard_mentioned'', {}), (''has_alert_word'', {}), (''historical'', {})])"
  by (simp add: scoped_change_def eventUpdateMessageFlags_def addFlagsForMessages_def
        removeFlagForMessages_def spread_def or_empty_def lookup_def initialState_def)

section \<open>The flags store: adding, then removing\<close>

text \<open>
  C5, as the code has it.  A scoped "add" of a flag for some ids followed by a scoped
  "remove" of the same flag for the same ids gives a state content-equal to the
  first one exactly when that state has an entry for the flag and recorded none of
  the ids under it.
\<close>

theorem add_then_remove_restores_iff:
  "(\<exists>s'. run s [scoped_change ''add'' f ids, scoped_change ''remove'' f ids] = Inr s'
          \<and> content_equal s' s)
     \<longleftrightarrow> f \<in> set (keys s) \<and> set ids \<inter> or_empty s f = {}"
  unfolding add_then_remove by (simp add: content_equal_assign lookup_Some_or_empty)

text \<open>At the initial state, for the flag "read" and the messages 3 and 4.\<close>

theorem add_then_remove_restores_iff_witness:
  "''read'' \<in> set (keys initialState)
   \<and> set [3, 4] \<inter> or_empty initialState ''read'' = {}
   \<and> (\<exists>s'. run initialState [scoped_change ''add'' ''read'' [3, 4],
                               scoped_change ''remove'' ''read'' [3, 4]] = Inr s'
            \<and> content_equal s' initialState)"
proof -
  have h: "''read'' \<in> set (keys initialState) \<and> set [3, 4] \<inter> or_empty initialState ''read'' = {}"
    by (simp add: initialState_def keys_def or_empty_def lookup_def)
  then have "\<exists>s'. run initialState [scoped_change ''add'' ''read'' [3, 4],
                                     scoped_change ''remove'' ''read'' [3, 4]] = Inr s'
                  \<and> content_equal s' initialState"
    by (simp only: add_then_remove_restores_iff)
  with h show ?thesis by simp
qed

text \<open>
  C5 as stated fails: message 1 is already read; adding "read" for it and removing
  it again leaves message 1 unread, a state that is not content-equal to the first.
\<close>

theorem add_then_remove_loses_flag:
  "run [(''read'', {1}), (''starred'', {})]
       [scoped_change ''add'' ''read'' [1], scoped_change ''remove'' ''read'' [1]]
   = Inr [(''read'', {}), (''starred'', {})]
   \<and> \<not> content_equal [(''read'', {}), (''starred'', {})] [(''read'', {1}), (''starred'', {})]"
  by (simp add: scoped_change_def eventUpdateMessageFlags_def addFlagsForMessages_def
        removeFlagForMessages_def spread_def or_empty_def lookup_def content_equal_def keys_def)

section \<open>The flags store: the assertion on a new message\<close>

text \<open>
  C6, as the code has it.  The assertion of the new-message case fails, with its
  message, exactly when the arriving message has no flag list; with a flag list,
  empty or not, the reducer returns a state.
\<close>

theorem assertion_fails_iff_flags_absent:
  "(flagsReducer state (EVENT_NEW_MESSAGE message)
      = Inl (Invariant_violation ''message in EVENT_NEW_MESSAGE must have flags''))
     = (msg_flags message = None)
   \<and> (\<exists>r. flagsReducer state (EVENT_NEW_MESSAGE message) = Inr r)
     = (\<exists>flags. msg_flags message = Some flags)"
  by (cases "msg_flags message") simp_all

text \<open>
  C6 as stated fails: a message arrives with an empty flag list, and the reducer
  returns normally.
\<close>

theorem empty_flag_list_passes_assertion:
  "flagsReducer initialState
     (EVENT_NEW_MESSAGE \<lparr>msg_id = 1, msg_type = Private_message, msg_recipients = [1, 2],
        msg_flags = Some [], msg_sender_id = 2\<rparr>)
   = Inr Same_state"
  by (simp add: addFlagsForMessages_def)

text \<open>
  C9.  For a new message whose flag list is present but empty the assertion passes,
  and the reducer hands back the state it was given.
\<close>

theorem empty_flag_list_returns_state:
  "msg_flags message = Some [] \<Longrightarrow>
     flagsReducer state (EVENT_NEW_MESSAGE message) = Inr Same_state"
  by (simp add: addFlagsForMessages_def)

theorem empty_flag_list_returns_state_witness:
  "msg_flags \<lparr>msg_id = 5, msg_type = Stream_message, msg_recipients = [],
      msg_flags = Some [], msg_sender_id = 4\<rparr> = Some []
   \<and> flagsReducer [(''read'', {1}), (''starred'', {2})]
       (EVENT_NEW_MESSAGE \<lparr>msg_id = 5, msg_type = Stream_message, msg_recipients = [],
          msg_flags = Some [], msg_sender_id = 4\<rparr>)
     = Inr Same_state"
proof -
  let ?M = "\<lparr>msg_id = 5, msg_type = Stream_message, msg_recipients = [],
              msg_flags = Some [], msg_sender_id = 4\<rparr>"
  have h: "msg_flags ?M = Some []" by simp
  from empty_flag_list_returns_state[OF h] h show ?thesis by blast
qed

section \<open>The flags of one message\<close>

text \<open>
  C10.  \<^verbatim>\<open>flagsStateToStringList\<close> returns the names of exactly the flags under which
  the message is recorded, in the order of the state's keys, and so the empty list
  exactly when the message is recorded under no flag.
\<close>

theorem flagsStateToStringList_exact:
  "set (flagsStateToStringList flags i) = {flag. has_flag flags flag i}
   \<and> subseq (flagsStateToStringList flags i) (keys flags)
   \<and> (flagsStateToStringList flags i = []) = (\<forall>flag. \<not> has_flag flags flag i)"
proof -
  have s: "set (flagsStateToStringList flags i) = {flag. has_flag flags flag i}"
    unfolding flagsStateToStringList_def has_flag_def or_empty_def lookup_def keys_def
    by (auto split: option.splits simp: map_of_eq_None_iff dest: map_of_SomeD weak_map_of_SomeI)
  have q: "subseq (flagsStateToStringList flags i) (keys flags)"
    unfolding flagsStateToStringList_def by simp
  have "(flagsStateToStringList flags i = []) = (set (flagsStateToStringList flags i) = {})"
    by simp
  also have "\<dots> = (\<forall>flag. \<not> has_flag flags flag i)"
    unfolding s by auto
  finally show ?thesis using s q by simp
qed

section \<open>The unread-group aggregator\<close>

text \<open>
  C7.  With own user id 0, removing "read" from the messages 10, 11 and 12, whose
  recipients are 1 and 2, 1 and 2, and 1, 2 and 3, turns the one entry with key
  \<open>0,1,2\<close> and unread ids 1, 2, 3 into that entry with 10 and 11 added, followed by
  a new entry with key \<open>0,1,2,3\<close> for 12; so do the two cases of the reducer's
  tests.  In general: the key is the sorted set of the recipients and the own id,
  joined with commas; after the event an entry holds the ids it held and every id of
  the event whose key is the entry's; the entries of the state stay in front, in
  their order, and an entry for a key without one is appended; an id that its entry
  already holds changes nothing, and lists without duplicates stay so.
\<close>

theorem unread_flag_removed_joins_entries:
  "unreadHuddles_flagRemoved 0
     [\<lparr>user_ids_string = ''0,1,2'', unread_message_ids = [1, 2, 3]\<rparr>]
     ''read'' [10, 11, 12] [(10, [1, 2]), (11, [1, 2]), (12, [1, 2, 3])]
   = Fresh [\<lparr>user_ids_string = ''0,1,2'', unread_message_ids = [1, 2, 3, 10, 11]\<rparr>,
            \<lparr>user_ids_string = ''0,1,2,3'', unread_message_ids = [12]\<rparr>]
   \<and> unreadHuddles_flagRemoved 0
       [\<lparr>user_ids_string = ''0,1,2'', unread_message_ids = [1, 2, 3, 4, 100]\<rparr>]
       ''read'' [10, 11, 12] [(10, [1, 2]), (11, [1, 2]), (12, [1, 2, 3])]
     = Fresh [\<lparr>user_ids_string = ''0,1,2'', unread_message_ids = [1, 2, 3, 4, 10, 11, 100]\<rparr>,
              \<lparr>user_ids_string = ''0,1,2,3'', unread_message_ids = [12]\<rparr>]
   \<and> unreadHuddles_flagRemoved 0
       [\<lparr>user_ids_string = ''0,1,2'', unread_message_ids = [1, 2, 3, 4]\<rparr>]
       ''read'' [2, 10] [(2, [1, 2]), (10, [1, 2])]
     = Fresh [\<lparr>user_ids_string = ''0,1,2'', unread_message_ids = [1, 2, 3, 4, 10]\<rparr>]
   \<and> participant_key ownUserId user_ids
     = join_comma (map show_nat (sorted_list_of_set (insert ownUserId (set user_ids))))
   \<and> participant_key 5 [12, 3, 5] = ''3,5,12''
   \<and> (\<forall>key. set (unread_of (unread_contents state
                  (unreadHuddles_flagRemoved ownUserId state ''read'' messages details)) key)
          = set (unread_of state key) \<union>
            {i \<in> set messages. \<exists>u. map_of details i = Some u \<and> participant_key ownUserId u = key})
   \<and> prefix (map user_ids_string state)
        (map user_ids_string (unread_contents state
           (unreadHuddles_flagRemoved ownUserId state ''read'' messages details)))
   \<and> ((\<forall>key. distinct (unread_of state key)) \<longrightarrow>
        (\<forall>key. distinct (unread_of (unread_contents state
           (unreadHuddles_flagRemoved ownUserId state ''read'' messages details)) key)))
   \<and> (key \<notin> set (map user_ids_string state) \<longrightarrow>
        insert_unread key i state
          = state @ [\<lparr>user_ids_string = key, unread_message_ids = [i]\<rparr>])
   \<and> (i \<in> set (unread_of state key) \<longrightarrow> insert_unread key i state = state)"
proof -
  have ex: "unreadHuddles_flagRemoved 0
     [\<lparr>user_ids_string = ''0,1,2'', unread_message_ids = [1, 2, 3]\<rparr>]
     ''read'' [10, 11, 12] [(10, [1, 2]), (11, [1, 2]), (12, [1, 2, 3])]
   = Fresh [\<lparr>user_ids_string = ''0,1,2'', unread_message_ids = [1, 2, 3, 10, 11]\<rparr>,
            \<lparr>user_ids_string = ''0,1,2,3'', unread_message_ids = [12]\<rparr>]"
    by (simp add: unreadHuddles_flagRemoved_def participant_key_def show_nat.simps)
  have t1: "unreadHuddles_flagRemoved 0
       [\<lparr>user_ids_string = ''0,1,2'', unread_message_ids = [1, 2, 3, 4, 100]\<rparr>]
       ''read'' [10, 11, 12] [(10, [1, 2]), (11, [1, 2]), (12, [1, 2, 3])]
     = Fresh [\<lparr>user_ids_string = ''0,1,2'', unread_message_ids = [1, 2, 3, 4, 10, 11, 100]\<rparr>,
              \<lparr>user_ids_string = ''0,1,2,3'', unread_message_ids = [12]\<rparr>]"
    by (simp add: unreadHuddles_flagRemoved_def participant_key_def show_nat.simps)
  have t2: "unreadHuddles_flagRemoved 0
       [\<lparr>user_ids_string = ''0,1,2'', unread_message_ids = [1, 2, 3, 4]\<rparr>]
       ''read'' [2, 10] [(2, [1, 2]), (10, [1, 2])]
     = Fresh [\<lparr>user_ids_string = ''0,1,2'', unread_message_ids = [1, 2, 3, 4, 10]\<rparr>]"
    by (simp add: unreadHuddles_flagRemoved_def participant_key_def show_nat.simps)
  have pk: "participant_key 5 [12, 3, 5] = ''3,5,12''"
    by (simp add: participant_key_def show_nat.simps)
  have ks: "participant_key ownUserId user_ids
     = join_comma (map show_nat (sorted_list_of_set (insert ownUserId (set user_ids))))"
    by (rule participant_key_set)
  have m: "\<forall>key. set (unread_of (unread_contents state
                  (unreadHuddles_flagRemoved ownUserId state ''read'' messages details)) key)
          = set (unread_of state key) \<union>
            {i \<in> set messages. \<exists>u. map_of details i = Some u \<and> participant_key ownUserId u = key}"
    unfolding flagRemoved_contents by (simp only: fold_mark_set) simp
  have p: "prefix (map user_ids_string state)
        (map user_ids_string (unread_contents state
           (unreadHuddles_flagRemoved ownUserId state ''read'' messages details)))"
    unfolding flagRemoved_contents by (rule fold_mark_prefix)
  have d: "(\<forall>key. distinct (unread_of state key)) \<longrightarrow>
        (\<forall>key. distinct (unread_of (unread_contents state
           (unreadHuddles_flagRemoved ownUserId state ''read'' messages details)) key))"
    unfolding flagRemoved_contents
    using fold_mark_distinct[where st = state and details = details and own = ownUserId
        and ms = messages]
    by blast
  have a: "key \<notin> set (map user_ids_string state) \<longrightarrow>
        insert_unread key i state
          = state @ [\<lparr>user_ids_string = key, unread_message_ids = [i]\<rparr>]"
    using insert_absent[of key state i] by blast
  have b: "i \<in> set (unread_of state key) \<longrightarrow> insert_unread key i state = state"
    using insert_present[of i state key] by blast
  show ?thesis
    by (intro conjI ex t1 t2 ks pk m p d a b)
qed

text \<open>
  At the state of the example: message 12 gets a new entry, message 2 is already in
  its entry, and no list of the result has a duplicate.
\<close>

theorem unread_flag_removed_joins_entries_witness:
  "insert_unread ''0,1,2,3'' 12 [\<lparr>user_ids_string = ''0,1,2'', unread_message_ids = [1, 2, 3]\<rparr>]
     = [\<lparr>user_ids_string = ''0,1,2'', unread_message_ids = [1, 2, 3]\<rparr>,
        \<lparr>user_ids_string = ''0,1,2,3'', unread_message_ids = [12]\<rparr>]
   \<and> insert_unread ''0,1,2'' 2 [\<lparr>user_ids_string = ''0,1,2'', unread_message_ids = [1, 2, 3]\<rparr>]
     = [\<lparr>user_ids_string = ''0,1,2'', unread_message_ids = [1, 2, 3]\<rparr>]
   \<and> (\<forall>key. distinct (unread_of (unread_contents
          [\<lparr>user_ids_string = ''0,1,2'', unread_message_ids = [1, 2, 3]\<rparr>]
          (unreadHuddles_flagRemoved 0
             [\<lparr>user_ids_string = ''0,1,2'', unread_message_ids = [1, 2, 3]\<rparr>]
             ''read'' [10, 11, 12] [(10, [1, 2]), (11, [1, 2]), (12, [1, 2, 3])])) key))"
proof -
  let ?S = "[\<lparr>user_ids_string = ''0,1,2'', unread_message_ids = [1, 2, 3::int]\<rparr>]"
  let ?D = "[(10::int, [1, 2::nat]), (11, [1, 2]), (12, [1, 2, 3])]"
  have h1: "''0,1,2,3'' \<notin> set (map user_ids_string ?S)" by simp
  have h2: "2 \<in> set (unread_of ?S ''0,1,2'')" by (simp add: unread_of_def)
  have h3: "\<forall>key. distinct (unread_of ?S key)" by (simp add: unread_of_def)
  note t = unread_flag_removed_joins_entries
  from t[where state = ?S and key = "''0,1,2,3''" and i = 12] h1
  have c1: "insert_unread ''0,1,2,3'' 12 ?S
     = ?S @ [\<lparr>user_ids_string = ''0,1,2,3'', unread_message_ids = [12]\<rparr>]"
    by blast
  from t[where state = ?S and key = "''0,1,2''" and i = 2] h2
  have c2: "insert_unread ''0,1,2'' 2 ?S = ?S" by blast
  from t[where state = ?S and ownUserId = 0 and messages = "[10, 11, 12]" and details = ?D] h3
  have c3: "\<forall>key. distinct (unread_of (unread_contents ?S
          (unreadHuddles_flagRemoved 0 ?S ''read'' [10, 11, 12] ?D)) key)"
    by blast
  from c1 c2 c3 show ?thesis by simp
qed

text \<open>
  C8.  A new message that is not a direct or group message, or that carries the
  "read" flag, or that the local user sent, leaves the unread groups as they are:
  the aggregator hands back its state.
\<close>

theorem unread_new_message_noop:
  "msg_type message \<noteq> Private_message
     \<or> ''read'' \<in> set (flags_or_nil message)
     \<or> msg_sender_id message = ownUserId
   \<Longrightarrow> unreadHuddles_newMessage ownUserId state message = Same_state"
  by (simp add: unreadHuddles_newMessage_def)

text \<open>A read group message that the local user, with id 1, sent.\<close>

theorem unread_new_message_noop_witness:
  "''read'' \<in> set (flags_or_nil \<lparr>msg_id = 7, msg_type = Private_message,
      msg_recipients = [1, 2, 3], msg_flags = Some [''read''], msg_sender_id = 1\<rparr>)
   \<and> unreadHuddles_newMessage 1
       [\<lparr>user_ids_string = ''1,2,3'', unread_message_ids = [4]\<rparr>]
       \<lparr>msg_id = 7, msg_type = Private_message, msg_recipients = [1, 2, 3],
          msg_flags = Some [''read''], msg_sender_id = 1\<rparr>
     = Same_state"
proof -
  let ?M = "\<lparr>msg_id = 7, msg_type = Private_message, msg_recipients = [1, 2, 3],
              msg_flags = Some [''read''], msg_sender_id = 1\<rparr>"
  have h: "''read'' \<in> set (flags_or_nil ?M)" by (simp add: flags_or_nil_def)
  then have "msg_type ?M \<noteq> Private_message \<or> ''read'' \<in> set (flags_or_nil ?M)
               \<or> msg_sender_id ?M = 1" by blast
  from unread_new_message_noop[OF this] h show ?thesis by blast
qed

end
